theory Spec2Isabelle
  imports Complex_Main "HOL-Library.Sublist"
begin

section \<open>Strings of the host language\<close>

text \<open>
  The two modules are Python. A Python 3 string is a sequence of code points; the
  model keeps the code points below 256 (ASCII and Latin-1), one \<open>char\<close> each, read
  as a number with \<open>of_char\<close>. On this range \<open>str.lower\<close> works character by
  character and keeps the length, and the three library predicates below are tables.
\<close>

text \<open>The character class \<open>[A-Z]\<close> of the regular expression: code points 65 to 90.\<close>

definition is_upper_AZ :: "char \<Rightarrow> bool" where
  "is_upper_AZ c = (65 \<le> (of_char c :: nat) \<and> (of_char c :: nat) \<le> 90)"

text \<open>
  The characters \<open>str.strip()\<close> removes when called without argument: tab, line feed,
  vertical tab, form feed, carriage return, the four separators 28 to 31, space, and in
  Latin-1 the next-line control 133 and the no-break space 160.
\<close>

definition isspace :: "char \<Rightarrow> bool" where
  "isspace c = ((of_char c :: nat) \<in> {9, 10, 11, 12, 13, 28, 29, 30, 31, 32, 133, 160})"

text \<open>
  \<open>str.lower()\<close> on one character: the letters A to Z and the Latin-1 capitals 192 to
  222 (without the multiplication sign 215) move up by 32; every other character stays.
\<close>

definition lower_char :: "char \<Rightarrow> char" where
  "lower_char c = (let n = (of_char c :: nat) in
     if (65 \<le> n \<and> n \<le> 90) \<or> (192 \<le> n \<and> n \<le> 222 \<and> n \<noteq> 215)
     then char_of (n + 32) else c)"

definition lower :: "string \<Rightarrow> string" where
  "lower s = map lower_char s"

text \<open>
  \<open>s.strip()\<close>: the index of the first character that is not white space is found
  from the left, then the end is moved back from the right over white space.
\<close>

definition strip :: "string \<Rightarrow> string" where
  "strip s = rev (dropWhile isspace (rev (dropWhile isspace s)))"

text \<open>
  \<open>s.replace(old, new)\<close>: occurrences of \<open>old\<close> are replaced from left to right
  without overlap; an empty \<open>old\<close> puts \<open>new\<close> before every character and at the end.
\<close>

function replace :: "string \<Rightarrow> string \<Rightarrow> string \<Rightarrow> string" where
  "replace old new s =
     (if old = [] then new @ concat (map (\<lambda>c. c # new) s)
      else if s = [] then []
      else if take (length old) s = old
           then new @ replace old new (drop (length old) s)
      else hd s # replace old new (tl s))"
  by pat_completeness auto
termination
  by (relation "measure (\<lambda>(old, new, s). length s)") auto

declare replace.simps [simp del]

section \<open>skchem/utils/string.py\<close>

subsection \<open>camel\_to\_snail\<close>

text \<open>
  \<^verbatim>\<open>re.sub('(?!^)([A-Z]+)', r'_\1', s).lower()\<close>

  \<open>re_match pos rest\<close> is one attempt to match the pattern at index \<open>pos\<close> of the
  subject, \<open>rest\<close> being the subject from that index on. The lookahead \<open>(?!^)\<close>
  fails exactly at index 0 (no MULTILINE flag), and \<open>[A-Z]+\<close> is greedy with nothing
  after it, so a match is the longest run of capitals that starts at \<open>pos\<close>. The result
  is group 1.
\<close>

definition re_match :: "nat \<Rightarrow> string \<Rightarrow> string option" where
  "re_match pos rest =
     (if pos \<noteq> 0 \<and> takeWhile is_upper_AZ rest \<noteq> []
      then Some (takeWhile is_upper_AZ rest) else None)"

text \<open>
  The scan of \<open>re.sub\<close>: at each index the pattern is tried; a match is replaced by
  the template \<open>_\1\<close> and the scan goes on behind it, otherwise the character is
  copied and the scan moves one index on. The pattern matches no empty string.
\<close>

function re_sub_from :: "nat \<Rightarrow> string \<Rightarrow> string" where
  "re_sub_from pos [] = []"
| "re_sub_from pos (c # cs) =
     (case re_match pos (c # cs) of
        Some g \<Rightarrow> CHR ''_'' # g @ re_sub_from (pos + length g) (drop (length g) (c # cs))
      | None \<Rightarrow> c # re_sub_from (Suc pos) cs)"
  by pat_completeness auto
termination
  by (relation "measure (\<lambda>(pos, rest). length rest)")
     (auto simp: re_match_def split: if_splits)

definition camel_to_snail :: "string \<Rightarrow> string" where
  "camel_to_snail s = lower (re_sub_from 0 s)"

subsection \<open>free\_to\_snail\<close>

text \<open>\<^verbatim>\<open>s.strip().lower().replace(' ', '_')\<close>\<close>

definition free_to_snail :: "string \<Rightarrow> string" where
  "free_to_snail s = replace '' '' ''_'' (lower (strip s))"

section \<open>The specification's description of the converters\<close>

text \<open>
  A run of capitals is a maximal block of consecutive letters A to Z.
  \<open>underscore_runs in_run s\<close> puts an underscore in front of every run that begins in
  \<open>s\<close>; \<open>in_run\<close> tells whether the character before \<open>s\<close> is a capital, in which
  case capitals at the front of \<open>s\<close> continue that run and begin none.
  \<open>count_runs\<close> counts the runs that begin in \<open>s\<close> the same way.
\<close>

fun underscore_runs :: "bool \<Rightarrow> string \<Rightarrow> string" where
  "underscore_runs in_run [] = []"
| "underscore_runs in_run (c # cs) =
     (if is_upper_AZ c \<and> \<not> in_run then CHR ''_'' # c # underscore_runs True cs
      else c # underscore_runs (is_upper_AZ c) cs)"

fun count_runs :: "bool \<Rightarrow> string \<Rightarrow> nat" where
  "count_runs in_run [] = 0"
| "count_runs in_run (c # cs) =
     (if is_upper_AZ c \<and> \<not> in_run then Suc (count_runs True cs)
      else count_runs (is_upper_AZ c) cs)"

text \<open>
  The sentence of the specification, word by word: an underscore before each run of
  capitals that is not at the start of the string, then everything in lower case. The
  first character gets no underscore, and when it is a capital the capitals behind it
  belong to its run, the one at the start of the string.
\<close>

definition camel_to_snail_spec :: "string \<Rightarrow> string" where
  "camel_to_snail_spec s =
     lower (case s of [] \<Rightarrow> [] | c # cs \<Rightarrow> c # underscore_runs (is_upper_AZ c) cs)"

text \<open>
  Snail case, as the glossary has it, is lower-case words joined by underscores: no
  character of the string changes under \<open>lower\<close> and none is a space. A string has no
  surrounding white space when neither end is a white-space character.
\<close>

definition is_snail_case :: "string \<Rightarrow> bool" where
  "is_snail_case s = (lower s = s \<and> CHR '' '' \<notin> set s)"

definition no_surrounding_whitespace :: "string \<Rightarrow> bool" where
  "no_surrounding_whitespace s =
     (takeWhile isspace s = [] \<and> takeWhile isspace (rev s) = [])"

section \<open>Floating-point numbers of the host language\<close>

text \<open>
  The coordinates of a point are Python floats, IEEE doubles. A finite double is a sign
  bit, a mantissa and a binary exponent, with the exact value
  \<open>(-1)\<^sup>s * m * 2\<^sup>e\<close>; the other doubles are the two infinities and NaN. The
  model does not bound mantissa and exponent, so it covers every finite double (and
  every other dyadic rational); the sign bit keeps the negative zero apart.
\<close>

datatype pyfloat = Finite bool nat int | Infinity bool | NaN

text \<open>The two exceptions \<open>round\<close> raises on a float that is not finite.\<close>

datatype error = ValueError | OverflowError

definition pow2 :: "int \<Rightarrow> rat" where
  "pow2 e = (if 0 \<le> e then 2 ^ nat e else 1 / 2 ^ nat (- e))"

definition finite_value :: "bool \<Rightarrow> nat \<Rightarrow> int \<Rightarrow> rat" where
  "finite_value s m e = (if s then - (of_nat m * pow2 e) else of_nat m * pow2 e)"

text \<open>
  \<open>round(v)\<close> with one argument, in Python 3: the integer nearest to the exact value
  of the float, a tie going to the even neighbour. An infinity raises OverflowError and
  NaN raises ValueError.
\<close>

definition round_half_even :: "rat \<Rightarrow> int" where
  "round_half_even q =
     (let f = \<lfloor>q\<rfloor>; d = q - of_int f
      in if d < 1 / 2 then f
         else if 1 / 2 < d then f + 1
         else if even f then f else f + 1)"

fun py_round :: "pyfloat \<Rightarrow> error + int" where
  "py_round (Finite s m e) = Inr (round_half_even (finite_value s m e))"
| "py_round (Infinity s) = Inl OverflowError"
| "py_round NaN = Inl ValueError"






section \<open>skchem/core/point3D.py\<close>

text \<open>
  An instance of \<open>Point3D\<close>. The coordinates are the fields \<open>x\<close>, \<open>y\<close>, \<open>z\<close> of
  the geometry class it derives from. \<open>klass\<close> is \<open>self.__class__.__name__\<close>, the name
  of the instance's class (\<open>Point3D\<close>, or the name of a subclass), and \<open>ident\<close> is
  \<open>id(self)\<close>, the number that identifies the instance: two instances that exist at the
  same time have different numbers.
\<close>

record Point3D =
  klass :: string
  ident :: nat
  x :: pyfloat
  y :: pyfloat
  z :: pyfloat

text \<open>
  \<open>to_dict\<close> builds a dictionary literal, here the list of its items in order; the
  roundings are evaluated from left to right and the first one that raises ends the
  call. With \<open>two_d\<close> true, \<open>z\<close> is not read.
\<close>

definition to_dict :: "Point3D \<Rightarrow> bool \<Rightarrow> error + (string \<times> int) list" where
  "to_dict self two_d =
     (if two_d then
        (case py_round (x self) of Inl err \<Rightarrow> Inl err | Inr rx \<Rightarrow>
        (case py_round (y self) of Inl err \<Rightarrow> Inl err | Inr ry \<Rightarrow>
           Inr [(''x'', rx), (''y'', ry)]))
      else
        (case py_round (x self) of Inl err \<Rightarrow> Inl err | Inr rx \<Rightarrow>
        (case py_round (y self) of Inl err \<Rightarrow> Inl err | Inr ry \<Rightarrow>
        (case py_round (z self) of Inl err \<Rightarrow> Inl err | Inr rz \<Rightarrow>
           Inr [(''x'', rx), (''y'', ry), (''z'', rz)]))))"



text \<open>
  The signature is \<^verbatim>\<open>to_dict(self, two_d=True)\<close>: a call may leave the argument
  out, and then \<open>two_d\<close> is true.
\<close>

definition to_dict_call :: "Point3D \<Rightarrow> bool option \<Rightarrow> error + (string \<times> int) list" where
  "to_dict_call self arg =
     to_dict self (case arg of None \<Rightarrow> True | Some two_d \<Rightarrow> two_d)"

subsection \<open>Instances and their identity\<close>








section \<open>Reading numerals back\<close>





section \<open>Characters\<close>

lemma of_char_lower_char:
  "(of_char (lower_char c) :: nat) =
     (if (65 \<le> (of_char c :: nat) \<and> (of_char c :: nat) \<le> 90) \<or>
         (192 \<le> (of_char c :: nat) \<and> (of_char c :: nat) \<le> 222 \<and> (of_char c :: nat) \<noteq> 215)
      then of_char c + 32 else of_char c)"
  by (auto simp: lower_char_def Let_def)

lemma char_eq_iff_nat: "(c = d) = ((of_char c :: nat) = of_char d)"
  by (metis char_of_char)

lemma lower_char_idem: "lower_char (lower_char c) = lower_char c"
  by (simp add: char_eq_iff_nat [of "lower_char (lower_char c)"] of_char_lower_char)

lemma lower_char_underscore: "(lower_char c = CHR ''_'') = (c = CHR ''_'')"
  by (simp add: char_eq_iff_nat [of _ "CHR ''_''"] of_char_lower_char)

lemma lower_char_space: "(lower_char c = CHR '' '') = (c = CHR '' '')"
  by (simp add: char_eq_iff_nat [of _ "CHR '' ''"] of_char_lower_char)

lemma isspace_lower_char: "isspace (lower_char c) = isspace c"
  by (auto simp add: isspace_def of_char_lower_char)

lemma lower_char_isspace: "isspace c \<Longrightarrow> lower_char c = c"
  by (auto simp add: isspace_def lower_char_def)

lemma space_isspace: "isspace (CHR '' '')"
  by (simp add: isspace_def)

section \<open>The substitution scan and the runs of capitals\<close>

lemma runs_continue:
  "underscore_runs True cs =
     takeWhile is_upper_AZ cs @ underscore_runs False (dropWhile is_upper_AZ cs)"
  by (induction cs) auto

lemma re_sub_from_pos:
  "pos \<noteq> 0 \<Longrightarrow> re_sub_from pos s = underscore_runs False s"
proof (induction pos s rule: re_sub_from.induct)
  case (1 pos)
  show ?case by simp
next
  case (2 pos c cs)
  show ?case
  proof (cases "is_upper_AZ c")
    case True
    let ?g = "c # takeWhile is_upper_AZ cs"
    from True "2.prems" have m: "re_match pos (c # cs) = Some ?g"
      by (simp add: re_match_def)
    have d: "drop (length ?g) (c # cs) = dropWhile is_upper_AZ cs"
      by (simp add: dropWhile_eq_drop)
    from "2.IH"(2) [OF m] "2.prems"
    have "re_sub_from (pos + length ?g) (drop (length ?g) (c # cs)) =
            underscore_runs False (dropWhile is_upper_AZ cs)"
      by (simp add: dropWhile_eq_drop)
    with m d True show ?thesis
      by (simp add: runs_continue)
  next
    case False
    then have m: "re_match pos (c # cs) = None"
      by (simp add: re_match_def)
    from "2.IH"(1) [OF m] have "re_sub_from (Suc pos) cs = underscore_runs False cs"
      by simp
    with m False show ?thesis by simp
  qed
qed

lemma re_sub_from_start:
  "re_sub_from 0 (c # cs) = c # underscore_runs False cs"
proof -
  have "re_match 0 (c # cs) = None" by (simp add: re_match_def)
  then show ?thesis by (simp add: re_sub_from_pos)
qed

lemma camel_to_snail_Cons:
  "camel_to_snail (c # cs) = lower_char c # lower (underscore_runs False cs)"
  by (simp add: camel_to_snail_def re_sub_from_start lower_def del: re_sub_from.simps)

lemma camel_to_snail_Nil: "camel_to_snail [] = []"
  by (simp add: camel_to_snail_def lower_def)

lemma length_underscore_runs:
  "length (underscore_runs b s) = length s + count_runs b s"
  by (induction b s rule: underscore_runs.induct) auto

lemma count_underscore_runs:
  "count_list (underscore_runs b s) (CHR ''_'') = count_list s (CHR ''_'') + count_runs b s"
  by (induction b s rule: underscore_runs.induct) (auto simp: is_upper_AZ_def)

lemma count_list_lower:
  "count_list (lower s) (CHR ''_'') = count_list s (CHR ''_'')"
  by (induction s) (auto simp: lower_def lower_char_underscore)

lemma filter_underscore_runs:
  "filter (\<lambda>c. c \<noteq> CHR ''_'') (underscore_runs b s) = filter (\<lambda>c. c \<noteq> CHR ''_'') s"
  by (induction b s rule: underscore_runs.induct) auto

lemma filter_lower:
  "filter (\<lambda>c. c \<noteq> CHR ''_'') (lower s) = lower (filter (\<lambda>c. c \<noteq> CHR ''_'') s)"
  by (induction s) (auto simp: lower_def lower_char_underscore)

lemma runs_inside_run:
  "list_all is_upper_AZ us \<Longrightarrow>
   underscore_runs True (us @ rest) = us @ underscore_runs True rest"
  by (induction us) auto

section \<open>Trimming and replacing\<close>

lemma replace_single:
  "replace [a] [b] s = map (\<lambda>c. if c = a then b else c) s"
proof (induction s)
  case Nil
  show ?case by (simp add: replace.simps)
next
  case (Cons c cs)
  then show ?case by (simp add: replace.simps [of "[a]" "[b]" "c # cs"])
qed

lemma free_to_snail_map:
  "free_to_snail s =
     map (\<lambda>c. if c = CHR '' '' then CHR ''_'' else lower_char c) (strip s)"
  by (simp add: free_to_snail_def replace_single lower_def lower_char_space)

lemma strip_decomp:
  "s = takeWhile isspace s @ strip s @ rev (takeWhile isspace (rev (dropWhile isspace s)))"
proof -
  let ?t = "dropWhile isspace s"
  have "strip s @ rev (takeWhile isspace (rev ?t)) =
          rev (takeWhile isspace (rev ?t) @ dropWhile isspace (rev ?t))"
    by (simp only: strip_def rev_append)
  also have "\<dots> = rev (rev ?t)"
    by (simp only: takeWhile_dropWhile_id)
  finally have "?t = strip s @ rev (takeWhile isspace (rev ?t))"
    by simp
  moreover have "s = takeWhile isspace s @ ?t" by simp
  ultimately show ?thesis by simp
qed

lemma strip_no_trailing: "takeWhile isspace (rev (strip s)) = []"
proof -
  have "takeWhile isspace (dropWhile isspace xs) = []" for xs :: string
    by (induction xs) auto
  then show ?thesis by (simp add: strip_def)
qed

lemma takeWhile_prefix_nil:
  "takeWhile P (xs @ ys) = [] \<Longrightarrow> takeWhile P xs = []"
  by (cases xs) (auto split: if_splits)

lemma strip_no_leading: "takeWhile isspace (strip s) = []"
proof -
  let ?t = "dropWhile isspace s"
  have t: "takeWhile isspace ?t = []"
    by (induction s) auto
  have "?t = strip s @ rev (takeWhile isspace (rev ?t))"
    using strip_decomp [of s] by (metis same_append_eq takeWhile_dropWhile_id)
  with t show ?thesis by (metis takeWhile_prefix_nil)
qed

lemma strip_fixed:
  "takeWhile isspace s = [] \<Longrightarrow> takeWhile isspace (rev s) = [] \<Longrightarrow> strip s = s"
  using strip_decomp [of s]
  by (metis append_Nil2 rev.simps(1) takeWhile_dropWhile_id self_append_conv2)

lemma strip_Cons_space: "isspace c \<Longrightarrow> strip (c # s) = strip s"
  by (simp add: strip_def)

lemma dropWhile_snoc_all: "P c \<Longrightarrow> dropWhile P s = [] \<Longrightarrow> dropWhile P (s @ [c]) = []"
  by (induction s) (auto split: if_splits)

lemma strip_snoc_space: "isspace c \<Longrightarrow> strip (s @ [c]) = strip s"
proof (cases "dropWhile isspace s = []")
  case True
  assume "isspace c"
  with True have "dropWhile isspace (s @ [c]) = []"
    by (rule_tac dropWhile_snoc_all)
  with True show ?thesis by (simp only: strip_def)
next
  case False
  assume c: "isspace c"
  from False have "\<exists>w\<in>set s. \<not> isspace w"
    by (metis dropWhile_eq_Nil_conv)
  then obtain w where "w \<in> set s" and "\<not> isspace w" by blast
  then have "dropWhile isspace (s @ [c]) = dropWhile isspace s @ [c]"
    by (rule dropWhile_append1)
  with c show ?thesis by (simp add: strip_def)
qed

lemma takeWhile_map_space:
  "takeWhile isspace s = [] \<Longrightarrow>
   takeWhile isspace (map (\<lambda>c. if c = CHR '' '' then CHR ''_'' else lower_char c) s) = []"
  by (cases s) (auto simp: isspace_lower_char space_isspace split: if_splits)

lemma free_to_snail_no_leading: "takeWhile isspace (free_to_snail s) = []"
  by (simp add: free_to_snail_map takeWhile_map_space strip_no_leading)

lemma free_to_snail_no_trailing: "takeWhile isspace (rev (free_to_snail s)) = []"
proof -
  have "rev (free_to_snail s) =
          map (\<lambda>c. if c = CHR '' '' then CHR ''_'' else lower_char c) (rev (strip s))"
    by (simp add: free_to_snail_map rev_map)
  then show ?thesis
    by (simp add: takeWhile_map_space strip_no_trailing)
qed

text \<open>Applying \<open>free_to_snail\<close> twice is the same as applying it once, on every string.\<close>

lemma free_to_snail_idem: "free_to_snail (free_to_snail s) = free_to_snail s"
proof -
  let ?f = "\<lambda>c. if c = CHR '' '' then CHR ''_'' else lower_char c"
  have "strip (free_to_snail s) = free_to_snail s"
    by (rule strip_fixed) (rule free_to_snail_no_leading, rule free_to_snail_no_trailing)
  then have "free_to_snail (free_to_snail s) = map ?f (free_to_snail s)"
    by (simp add: free_to_snail_map [of "free_to_snail s"])
  also have "\<dots> = map (?f \<circ> ?f) (strip s)"
    by (simp add: free_to_snail_map [of s])
  also have "?f \<circ> ?f = ?f"
    by (auto simp: fun_eq_iff lower_char_idem lower_char_space lower_char_underscore)
  finally show ?thesis by (simp add: free_to_snail_map [of s])
qed

section \<open>Rounding\<close>

lemma round_half_even_div:
  assumes "0 < b"
  shows "round_half_even (of_int a / of_int b) =
     (if 2 * (a mod b) < b then a div b
      else if b < 2 * (a mod b) then a div b + 1
      else if even (a div b) then a div b else a div b + 1)"
proof -
  have f: "\<lfloor>(of_int a / of_int b :: rat)\<rfloor> = a div b"
    by (simp add: floor_divide_of_int_eq)
  from assms have nz: "(of_int b :: rat) \<noteq> 0" and pos: "(0 :: rat) < of_int b"
    by simp_all
  have "(of_int a :: rat) = of_int (a div b * b + a mod b)"
    by (simp only: div_mult_mod_eq)
  also have "\<dots> = of_int (a div b) * of_int b + of_int (a mod b)"
    by (simp only: of_int_add of_int_mult)
  finally have "(of_int a / of_int b :: rat) =
      (of_int (a div b) * of_int b + of_int (a mod b)) / of_int b"
    by (rule arg_cong)
  also from nz have "\<dots> = of_int (a div b) + of_int (a mod b) / of_int b"
    by (simp add: add_divide_distrib)
  finally have d: "(of_int a / of_int b :: rat) - of_int (a div b) =
      of_int (a mod b) / of_int b"
    by simp
  have "((of_int (a mod b) / of_int b :: rat) < 1 / 2) =
        ((of_int (a mod b) :: rat) * 2 < of_int b)"
    using pos by (simp only: divide_less_eq less_divide_eq) simp
  also have "\<dots> = ((of_int (2 * (a mod b)) :: rat) < of_int b)"
    by (simp add: mult.commute)
  also have "\<dots> = (2 * (a mod b) < b)"
    by (simp only: of_int_less_iff)
  finally have lt: "((of_int (a mod b) / of_int b :: rat) < 1 / 2) = (2 * (a mod b) < b)" .
  have "(1 / 2 < (of_int (a mod b) / of_int b :: rat)) =
        ((of_int b :: rat) < of_int (a mod b) * 2)"
    using pos by (simp only: divide_less_eq less_divide_eq) simp
  also have "\<dots> = ((of_int b :: rat) < of_int (2 * (a mod b)))"
    by (simp add: mult.commute)
  also have "\<dots> = (b < 2 * (a mod b))"
    by (simp only: of_int_less_iff)
  finally have gt: "(1 / 2 < (of_int (a mod b) / of_int b :: rat)) = (b < 2 * (a mod b))" .
  show ?thesis
    unfolding round_half_even_def Let_def f d lt gt by simp
qed

lemma round_half_even_numeral:
  "round_half_even (numeral a / numeral b) =
     (if 2 * (numeral a mod numeral b) < (numeral b :: int) then numeral a div numeral b
      else if numeral b < 2 * (numeral a mod numeral b :: int) then numeral a div numeral b + 1
      else if even (numeral a div numeral b :: int) then numeral a div numeral b
      else numeral a div numeral b + 1)"
  using round_half_even_div [of "numeral b" "numeral a"] by simp

lemma round_half_even_nearest:
  "\<bar>of_int (round_half_even q) - q\<bar> \<le> 1 / 2"
proof -
  have "of_int \<lfloor>q\<rfloor> \<le> q" and "q < of_int \<lfloor>q\<rfloor> + 1"
    by linarith+
  then show ?thesis
    by (auto simp: round_half_even_def Let_def)
qed

lemma round_half_even_of_int: "round_half_even (of_int k) = k"
  by (simp add: round_half_even_def Let_def)


lemma round_half_even_numeral_int: "round_half_even (numeral k) = numeral k"
  using round_half_even_of_int [of "numeral k"] by simp


section \<open>Digits\<close>


















lemma value_1_4: "finite_value False 3152519739159347 (- 51) = 3152519739159347 / 2251799813685248"
  by (simp add: finite_value_def pow2_def)

lemma value_2_6: "finite_value False 5854679515581645 (- 51) = 5854679515581645 / 2251799813685248"
  by (simp add: finite_value_def pow2_def)

lemma value_3_5: "finite_value False 7 (- 1) = 7 / 2"
  by (simp add: finite_value_def pow2_def)

lemma round_1_4: "round_half_even (3152519739159347 / 2251799813685248) = 1"
  by (simp add: round_half_even_numeral)

lemma round_2_6: "round_half_even (5854679515581645 / 2251799813685248) = 3"
  by (simp add: round_half_even_numeral)

lemma round_3_5: "round_half_even (7 / 2) = 4"
  by (simp add: round_half_even_numeral)

text \<open>
  A coordinate that is read and is not finite makes \<open>to_dict\<close> raise, as \<open>round\<close>
  does.
\<close>

lemma to_dict_not_finite:
  "x p = NaN \<Longrightarrow> to_dict p two_d = Inl ValueError"
  "x p = Infinity s \<Longrightarrow> to_dict p two_d = Inl OverflowError"
  by (simp_all add: to_dict_def)

section \<open>Claims about Point3D\<close>

text \<open>
  Claim C3, as stated, is false: on a point whose \<open>x\<close> is NaN, \<open>to_dict\<close> returns no
  mapping; the call ends with the ValueError of \<open>round\<close>.
\<close>

theorem to_dict_nan_counterexample:
  "to_dict \<lparr>klass = ''Point3D'', ident = 0,
             x = NaN, y = Finite False 0 0, z = Finite False 0 0\<rparr> True = Inl ValueError"
  by (simp add: to_dict_def)

text \<open>
  Claim C3, amended: for every point whose \<open>x\<close> and \<open>y\<close> are finite, \<open>to_dict\<close> with
  \<open>two_d\<close> true, which is also the call without argument, returns the mapping with
  exactly the keys \<open>x\<close> and \<open>y\<close>; when \<open>z\<close> is finite as well, \<open>to_dict\<close> with
  \<open>two_d\<close> false returns the mapping with exactly the keys \<open>x\<close>, \<open>y\<close> and \<open>z\<close>.
  Each key holds the coordinate rounded to the nearest integer: an integer at distance at
  most one half of the coordinate.
\<close>

theorem to_dict_rounds_finite_coordinates:
  assumes "x p = Finite sx mx ex" and "y p = Finite sy my ey"
  shows "to_dict p True =
           Inr [(''x'', round_half_even (finite_value sx mx ex)),
                (''y'', round_half_even (finite_value sy my ey))] \<and>
         to_dict_call p None = to_dict p True \<and>
         to_dict_call p (Some True) = to_dict p True \<and>
         to_dict_call p (Some False) = to_dict p False \<and>
         \<bar>of_int (round_half_even (finite_value sx mx ex)) - finite_value sx mx ex\<bar> \<le> 1 / 2 \<and>
         \<bar>of_int (round_half_even (finite_value sy my ey)) - finite_value sy my ey\<bar> \<le> 1 / 2 \<and>
         (z p = Finite sz mz ez \<longrightarrow>
            to_dict p False =
              Inr [(''x'', round_half_even (finite_value sx mx ex)),
                   (''y'', round_half_even (finite_value sy my ey)),
                   (''z'', round_half_even (finite_value sz mz ez))] \<and>
            \<bar>of_int (round_half_even (finite_value sz mz ez)) - finite_value sz mz ez\<bar> \<le> 1 / 2)"
proof (intro conjI impI)
  from assms show "to_dict p True =
           Inr [(''x'', round_half_even (finite_value sx mx ex)),
                (''y'', round_half_even (finite_value sy my ey))]"
    by (simp add: to_dict_def)
next
  show "to_dict_call p None = to_dict p True" by (simp add: to_dict_call_def)
next
  show "to_dict_call p (Some True) = to_dict p True" by (simp add: to_dict_call_def)
next
  show "to_dict_call p (Some False) = to_dict p False" by (simp add: to_dict_call_def)
next
  assume "z p = Finite sz mz ez"
  with assms show "to_dict p False =
              Inr [(''x'', round_half_even (finite_value sx mx ex)),
                   (''y'', round_half_even (finite_value sy my ey)),
                   (''z'', round_half_even (finite_value sz mz ez))]"
    by (simp add: to_dict_def)
qed (rule round_half_even_nearest)+

text \<open>
  The amended claim C3 at the point (-2.5, 3.0, 0.25): the keys hold -2 (the tie goes to
  the even neighbour), 3 and 0.
\<close>

theorem to_dict_rounds_finite_coordinates_witness:
  "to_dict_call \<lparr>klass = ''Point3D'', ident = 0,
             x = Finite True 5 (- 1), y = Finite False 3 0, z = Finite False 1 (- 2)\<rparr> None =
     Inr [(''x'', - 2), (''y'', 3)] \<and>
   to_dict \<lparr>klass = ''Point3D'', ident = 0,
             x = Finite True 5 (- 1), y = Finite False 3 0, z = Finite False 1 (- 2)\<rparr> True =
     Inr [(''x'', - 2), (''y'', 3)] \<and>
   to_dict \<lparr>klass = ''Point3D'', ident = 0,
             x = Finite True 5 (- 1), y = Finite False 3 0, z = Finite False 1 (- 2)\<rparr> False =
     Inr [(''x'', - 2), (''y'', 3), (''z'', 0)]"
proof -
  let ?p = "\<lparr>klass = ''Point3D'', ident = 0,
             x = Finite True 5 (- 1), y = Finite False 3 0, z = Finite False 1 (- 2)\<rparr>"
  have hx: "x ?p = Finite True 5 (- 1)" and hy: "y ?p = Finite False 3 0"
    and hz: "z ?p = Finite False 1 (- 2)" by simp_all
  have vx: "round_half_even (finite_value True 5 (- 1)) = - 2"
    using round_half_even_div [of 2 "- 5"] by (simp add: finite_value_def pow2_def)
  have vy: "round_half_even (finite_value False 3 0) = 3"
    using round_half_even_of_int [of 3] by (simp add: finite_value_def pow2_def)
  have vz: "round_half_even (finite_value False 1 (- 2)) = 0"
    using round_half_even_div [of 4 1] by (simp add: finite_value_def pow2_def)
  from to_dict_rounds_finite_coordinates [OF hx hy, of False 1 "- 2"] hz vx vy vz
  show ?thesis by simp
qed

text \<open>
  Claim C4: on the point with x = 1.4, y = 2.6, z = 3.5, \<open>to_dict\<close> with \<open>two_d\<close> true
  returns exactly x: 1 and y: 3, and with \<open>two_d\<close> false those entries and z: 4. The
  half value 3.5 is rounded to the even neighbour 4, by the same rule that rounds 2.5 to
  2. The coordinates are the doubles nearest to 1.4 and 2.6, and 3.5 exactly.
\<close>

theorem to_dict_example_point:
  "to_dict \<lparr>klass = k, ident = i, x = Finite False 3152519739159347 (- 51),
             y = Finite False 5854679515581645 (- 51), z = Finite False 7 (- 1)\<rparr> True =
     Inr [(''x'', 1), (''y'', 3)] \<and>
   to_dict \<lparr>klass = k, ident = i, x = Finite False 3152519739159347 (- 51),
             y = Finite False 5854679515581645 (- 51), z = Finite False 7 (- 1)\<rparr> False =
     Inr [(''x'', 1), (''y'', 3), (''z'', 4)] \<and>
   py_round (Finite False 7 (- 1)) = Inr 4 \<and>
   py_round (Finite False 5 (- 1)) = Inr 2 \<and>
   \<bar>finite_value False 3152519739159347 (- 51) - 14 / 10\<bar> < 1 / 2 ^ 52 \<and>
   \<bar>finite_value False 5854679515581645 (- 51) - 26 / 10\<bar> < 1 / 2 ^ 51 \<and>
   finite_value False 7 (- 1) = 35 / 10"
proof (intro conjI)
  show "to_dict \<lparr>klass = k, ident = i, x = Finite False 3152519739159347 (- 51),
             y = Finite False 5854679515581645 (- 51), z = Finite False 7 (- 1)\<rparr> True =
     Inr [(''x'', 1), (''y'', 3)]"
    by (simp add: to_dict_def value_1_4 value_2_6 round_1_4 round_2_6)
  show "to_dict \<lparr>klass = k, ident = i, x = Finite False 3152519739159347 (- 51),
             y = Finite False 5854679515581645 (- 51), z = Finite False 7 (- 1)\<rparr> False =
     Inr [(''x'', 1), (''y'', 3), (''z'', 4)]"
    by (simp add: to_dict_def value_1_4 value_2_6 value_3_5 round_1_4 round_2_6 round_3_5)
  show "py_round (Finite False 7 (- 1)) = Inr 4"
    by (simp add: value_3_5 round_3_5)
  show "py_round (Finite False 5 (- 1)) = Inr 2"
    by (simp add: finite_value_def pow2_def round_half_even_numeral)
  show "\<bar>finite_value False 3152519739159347 (- 51) - 14 / 10\<bar> < 1 / 2 ^ 52"
    by (simp add: value_1_4)
  show "\<bar>finite_value False 5854679515581645 (- 51) - 26 / 10\<bar> < 1 / 2 ^ 51"
    by (simp add: value_2_6)
  show "finite_value False 7 (- 1) = 35 / 10"
    by (simp add: value_3_5)
qed





section \<open>Claims about camel\_to\_snail\<close>

text \<open>
  Claim C1, as the specification states it, at the input \<open>ABc\<close>: the only run of
  capitals is \<open>AB\<close> and it is at the start of the string, so the stated rule inserts
  nothing and gives \<open>abc\<close>. The code gives \<open>a_bc\<close>: the lookahead only forbids a
  match at index 0, and at index 1 the pattern matches the rest of that run.
\<close>

theorem camel_to_snail_spec_counterexample:
  "camel_to_snail_spec ''ABc'' = ''abc'' \<and> camel_to_snail ''ABc'' = ''a_bc'' \<and>
   camel_to_snail ''ABc'' \<noteq> camel_to_snail_spec ''ABc''"
  by code_simp

text \<open>
  Claim C1, amended: \<open>camel_to_snail\<close> keeps the first character, inserts an
  underscore before each maximal run of capitals found among the characters after the
  first, and puts the whole string in lower case. For every string that does not begin
  with two capitals this is the rule of the specification. The three examples of the
  claim hold: \<open>CamelCase\<close> gives \<open>camel_case\<close>, the empty string gives the empty
  string, and \<open>lower\<close> gives \<open>lower\<close>.
\<close>

theorem camel_to_snail_runs_after_first:
  "camel_to_snail s =
     lower (case s of [] \<Rightarrow> [] | c # cs \<Rightarrow> c # underscore_runs False cs) \<and>
   (\<not> (\<exists>a b r. s = a # b # r \<and> is_upper_AZ a \<and> is_upper_AZ b) \<longrightarrow>
      camel_to_snail s = camel_to_snail_spec s) \<and>
   camel_to_snail ''CamelCase'' = ''camel_case'' \<and>
   camel_to_snail [] = [] \<and>
   camel_to_snail ''lower'' = ''lower''"
proof (intro conjI impI)
  show "camel_to_snail s =
     lower (case s of [] \<Rightarrow> [] | c # cs \<Rightarrow> c # underscore_runs False cs)"
    by (cases s) (simp_all add: camel_to_snail_Nil camel_to_snail_Cons lower_def)
next
  assume h: "\<not> (\<exists>a b r. s = a # b # r \<and> is_upper_AZ a \<and> is_upper_AZ b)"
  show "camel_to_snail s = camel_to_snail_spec s"
  proof (cases s)
    case Nil
    then show ?thesis by (simp add: camel_to_snail_Nil camel_to_snail_spec_def lower_def)
  next
    case (Cons c cs)
    with h have "underscore_runs (is_upper_AZ c) cs = underscore_runs False cs"
      by (cases cs) auto
    with Cons show ?thesis
      by (simp add: camel_to_snail_Cons camel_to_snail_spec_def lower_def)
  qed
next
  show "camel_to_snail ''CamelCase'' = ''camel_case''" by code_simp
next
  show "camel_to_snail [] = []" by (rule camel_to_snail_Nil)
next
  show "camel_to_snail ''lower'' = ''lower''" by code_simp
qed

text \<open>The amended claim C1 at \<open>CamelCase\<close>, which does not begin with two capitals.\<close>

theorem camel_to_snail_runs_after_first_witness:
  "\<not> (\<exists>a b r. ''CamelCase'' = a # b # r \<and> is_upper_AZ a \<and> is_upper_AZ b) \<and>
   camel_to_snail ''CamelCase'' = camel_to_snail_spec ''CamelCase'' \<and>
   camel_to_snail_spec ''CamelCase'' = ''camel_case''"
proof -
  have h: "\<not> (\<exists>a b r. ''CamelCase'' = a # b # r \<and> is_upper_AZ a \<and> is_upper_AZ b)"
    by (simp add: is_upper_AZ_def)
  have v: "camel_to_snail_spec ''CamelCase'' = ''camel_case''" by code_simp
  from h v camel_to_snail_runs_after_first [of "''CamelCase''"] show ?thesis by blast
qed

text \<open>
  Claim C2, as stated, is false: the result for \<open>HTTPServer\<close> is not
  \<open>_h_t_t_p_server\<close>.
\<close>

theorem camel_to_snail_HTTPServer_counterexample:
  "camel_to_snail ''HTTPServer'' \<noteq> ''_h_t_t_p_server''"
  by code_simp

text \<open>
  Claim C2, amended: \<open>camel_to_snail\<close> of \<open>HTTPServer\<close> is \<open>h_ttpserver\<close>. For
  an input that begins with consecutive capitals, a first capital \<open>c\<close> followed by
  one or more capitals \<open>us\<close>, the result begins with the first letter in lower case,
  one underscore, and the following capitals in lower case with nothing between them;
  there is no underscore before the first character.
\<close>

theorem camel_to_snail_consecutive_capitals:
  "camel_to_snail ''HTTPServer'' = ''h_ttpserver'' \<and>
   (us \<noteq> [] \<and> list_all is_upper_AZ (c # us) \<longrightarrow>
      take (length us + 2) (camel_to_snail (c # us @ rest)) =
        lower_char c # CHR ''_'' # lower us)"
proof (intro conjI impI)
  show "camel_to_snail ''HTTPServer'' = ''h_ttpserver''" by code_simp
next
  assume h: "us \<noteq> [] \<and> list_all is_upper_AZ (c # us)"
  then obtain u vs where us: "us = u # vs" by (cases us) auto
  with h have u: "is_upper_AZ u" and vs: "list_all is_upper_AZ vs" by auto
  from u have "underscore_runs False (us @ rest) =
      CHR ''_'' # u # underscore_runs True (vs @ rest)"
    by (simp add: us)
  also have "\<dots> = CHR ''_'' # us @ underscore_runs True rest"
    by (simp add: us runs_inside_run [OF vs])
  finally have "camel_to_snail (c # us @ rest) =
      lower_char c # CHR ''_'' # lower us @ lower (underscore_runs True rest)"
    by (simp add: camel_to_snail_Cons lower_def lower_char_underscore)
  then show "take (length us + 2) (camel_to_snail (c # us @ rest)) =
        lower_char c # CHR ''_'' # lower us"
    by (simp add: lower_def)
qed

text \<open>The amended claim C2 at \<open>H\<close>, \<open>TTPS\<close>, \<open>erver\<close>.\<close>

theorem camel_to_snail_consecutive_capitals_witness:
  "''TTPS'' \<noteq> [] \<and> list_all is_upper_AZ (CHR ''H'' # ''TTPS'') \<and>
   take 6 (camel_to_snail ''HTTPServer'') = ''h_ttps''"
proof -
  have h: "''TTPS'' \<noteq> [] \<and> list_all is_upper_AZ (CHR ''H'' # ''TTPS'')"
    by (simp add: is_upper_AZ_def)
  have l: "lower_char (CHR ''H'') # CHR ''_'' # lower ''TTPS'' = ''h_ttps''"
    by code_simp
  from h l camel_to_snail_consecutive_capitals [of "''TTPS''" "CHR ''H''" "''erver''"]
  show ?thesis by simp
qed

text \<open>
  Claim C9: \<open>camel_to_snail\<close> never inserts an underscore before the first character.
  The result for a non-empty string \<open>c # cs\<close> is non-empty and begins with the first
  character in lower case. For every string \<open>s\<close> the result is the lower-case string
  with underscores inserted (deleting all underscores from both gives the same string),
  and the number of inserted underscores is the number of maximal runs of capitals among
  the characters after the first: one for \<open>HTTPServer\<close>, whose result is
  \<open>h_ttpserver\<close>.
\<close>

theorem camel_to_snail_first_character:
  "camel_to_snail (c # cs) \<noteq> [] \<and>
   hd (camel_to_snail (c # cs)) = lower_char c \<and>
   length (camel_to_snail s) = length s + count_runs False (tl s) \<and>
   count_list (camel_to_snail s) (CHR ''_'') =
     count_list s (CHR ''_'') + count_runs False (tl s) \<and>
   filter (\<lambda>c. c \<noteq> CHR ''_'') (camel_to_snail s) =
     filter (\<lambda>c. c \<noteq> CHR ''_'') (lower s) \<and>
   count_runs False (tl ''HTTPServer'') = 1 \<and>
   camel_to_snail ''HTTPServer'' = ''h_ttpserver''"
proof (intro conjI)
  show "camel_to_snail (c # cs) \<noteq> []" by (simp add: camel_to_snail_Cons)
  show "hd (camel_to_snail (c # cs)) = lower_char c" by (simp add: camel_to_snail_Cons)
  show "length (camel_to_snail s) = length s + count_runs False (tl s)"
    by (cases s)
       (simp_all add: camel_to_snail_Nil camel_to_snail_Cons lower_def length_underscore_runs)
  show "count_list (camel_to_snail s) (CHR ''_'') =
     count_list s (CHR ''_'') + count_runs False (tl s)"
  proof (cases s)
    case Nil
    then show ?thesis by (simp add: camel_to_snail_Nil)
  next
    case (Cons a as)
    have "count_list (lower (underscore_runs False as)) (CHR ''_'') =
          count_list as (CHR ''_'') + count_runs False as"
      by (simp only: count_list_lower count_underscore_runs)
    with Cons show ?thesis
      by (simp add: camel_to_snail_Cons lower_char_underscore)
  qed
  show "filter (\<lambda>c. c \<noteq> CHR ''_'') (camel_to_snail s) =
     filter (\<lambda>c. c \<noteq> CHR ''_'') (lower s)"
  proof (cases s)
    case Nil
    then show ?thesis by (simp add: camel_to_snail_Nil lower_def)
  next
    case (Cons a as)
    have "filter (\<lambda>c. c \<noteq> CHR ''_'') (lower (underscore_runs False as)) =
          filter (\<lambda>c. c \<noteq> CHR ''_'') (lower as)"
      by (simp only: filter_lower filter_underscore_runs)
    with Cons show ?thesis
      by (simp add: camel_to_snail_Cons lower_def)
  qed
  show "count_runs False (tl ''HTTPServer'') = 1" by code_simp
  show "camel_to_snail ''HTTPServer'' = ''h_ttpserver''" by code_simp
qed

section \<open>Claims about free\_to\_snail\<close>

text \<open>
  Claim C5: \<open>free_to_snail\<close> trims leading and trailing white space, lowercases, and
  replaces each space by an underscore. The trimmed string \<open>strip s\<close> is \<open>s\<close> without
  a prefix and a suffix made of white space only, and it neither begins nor ends with
  white space; lowercasing keeps its length; the result is the lowercased trimmed string
  with every space turned into an underscore and nothing else changed. In particular
  \<open>free_to_snail\<close> maps "  Hello World  " to \<open>hello_world\<close> and the empty string to the
  empty string.
\<close>

theorem free_to_snail_strip_lower_replace:
  "(\<exists>pre post. s = pre @ strip s @ post \<and> list_all isspace pre \<and> list_all isspace post) \<and>
   takeWhile isspace (strip s) = [] \<and>
   takeWhile isspace (rev (strip s)) = [] \<and>
   length (lower (strip s)) = length (strip s) \<and>
   free_to_snail s =
     map (\<lambda>c. if c = CHR '' '' then CHR ''_'' else c) (lower (strip s)) \<and>
   free_to_snail ''  Hello World  '' = ''hello_world'' \<and>
   free_to_snail [] = []"
proof (intro conjI)
  have "list_all isspace (takeWhile isspace s)"
    by (simp add: list_all_iff) (meson set_takeWhileD)
  moreover have "list_all isspace (rev (takeWhile isspace (rev (dropWhile isspace s))))"
    by (simp add: list_all_iff) (meson set_takeWhileD)
  ultimately show "\<exists>pre post. s = pre @ strip s @ post \<and> list_all isspace pre \<and>
      list_all isspace post"
    using strip_decomp [of s] by blast
  show "takeWhile isspace (strip s) = []" by (rule strip_no_leading)
  show "takeWhile isspace (rev (strip s)) = []" by (rule strip_no_trailing)
  show "length (lower (strip s)) = length (strip s)" by (simp add: lower_def)
  show "free_to_snail s =
     map (\<lambda>c. if c = CHR '' '' then CHR ''_'' else c) (lower (strip s))"
    by (simp add: free_to_snail_def replace_single)
  show "free_to_snail ''  Hello World  '' = ''hello_world''" by code_simp
  show "free_to_snail [] = []" by code_simp
qed

text \<open>
  Claim C8: for every string \<open>s\<close> that is already in snail case and has no surrounding
  white space, applying \<open>free_to_snail\<close> twice gives the same as applying it once;
  indeed \<open>free_to_snail\<close> leaves such a string as it is.
\<close>

theorem free_to_snail_idempotent_on_snail_case:
  "is_snail_case s \<Longrightarrow> no_surrounding_whitespace s \<Longrightarrow>
   free_to_snail s = s \<and> free_to_snail (free_to_snail s) = free_to_snail s"
proof -
  assume sc: "is_snail_case s" and ns: "no_surrounding_whitespace s"
  from ns have "strip s = s"
    by (simp add: no_surrounding_whitespace_def strip_fixed)
  moreover from sc have l: "lower s = s" and n: "CHR '' '' \<notin> set s"
    by (simp_all add: is_snail_case_def)
  moreover from n have "map (\<lambda>c. if c = CHR '' '' then CHR ''_'' else c) s = s"
    by (intro map_idI) auto
  ultimately have "free_to_snail s = s"
    by (simp add: free_to_snail_def replace_single)
  then show ?thesis by simp
qed

text \<open>Claim C8 at the snail-case string \<open>hello_world\<close>.\<close>

theorem free_to_snail_idempotent_on_snail_case_witness:
  "is_snail_case ''hello_world'' \<and> no_surrounding_whitespace ''hello_world'' \<and>
   free_to_snail (free_to_snail ''hello_world'') = free_to_snail ''hello_world''"
proof -
  have a: "is_snail_case ''hello_world''" by code_simp
  have b: "no_surrounding_whitespace ''hello_world''" by code_simp
  from a b free_to_snail_idempotent_on_snail_case [OF a b] show ?thesis by simp
qed

text \<open>
  Claim C10: \<open>free_to_snail\<close> replaces only the space character by an underscore. The
  result has the length of the trimmed string; an underscore of the result stands where
  the trimmed string has a space or an underscore; every other character is only
  lowercased, and an interior white-space character other than the space (a tab, a
  newline) is kept unchanged, so the result can still contain white space, as in the
  example with a tab and a newline inside. Leading and trailing white space of every
  kind is removed: a white-space character \<open>c\<close> added in front or at the end does not
  change the result, and the result neither begins nor ends with white space.
\<close>

theorem free_to_snail_only_space_replaced:
  "length (free_to_snail s) = length (strip s) \<and>
   (\<forall>i<length (strip s).
      (free_to_snail s ! i = CHR ''_'') =
        (strip s ! i = CHR '' '' \<or> strip s ! i = CHR ''_'') \<and>
      (strip s ! i \<noteq> CHR '' '' \<longrightarrow> free_to_snail s ! i = lower_char (strip s ! i)) \<and>
      (isspace (strip s ! i) \<and> strip s ! i \<noteq> CHR '' '' \<longrightarrow>
         free_to_snail s ! i = strip s ! i)) \<and>
   (isspace c \<longrightarrow> free_to_snail (c # s) = free_to_snail s \<and>
                  free_to_snail (s @ [c]) = free_to_snail s) \<and>
   takeWhile isspace (free_to_snail s) = [] \<and>
   takeWhile isspace (rev (free_to_snail s)) = [] \<and>
   free_to_snail [CHR 0x09, CHR ''a'', CHR 0x09, CHR ''b'', CHR '' '', CHR 0x0A, CHR ''c'', CHR 0x0A] =
     [CHR ''a'', CHR 0x09, CHR ''b'', CHR ''_'', CHR 0x0A, CHR ''c''] \<and>
   isspace (CHR 0x09) \<and> isspace (CHR 0x0A)"
proof (intro conjI allI impI)
  show "length (free_to_snail s) = length (strip s)"
    by (simp add: free_to_snail_map)
next
  fix i assume i: "i < length (strip s)"
  then show "(free_to_snail s ! i = CHR ''_'') =
        (strip s ! i = CHR '' '' \<or> strip s ! i = CHR ''_'')"
    by (simp add: free_to_snail_map lower_char_underscore)
next
  fix i assume "i < length (strip s)" and "strip s ! i \<noteq> CHR '' ''"
  then show "free_to_snail s ! i = lower_char (strip s ! i)"
    by (simp add: free_to_snail_map)
next
  fix i assume "i < length (strip s)"
    and "isspace (strip s ! i) \<and> strip s ! i \<noteq> CHR '' ''"
  then show "free_to_snail s ! i = strip s ! i"
    by (simp add: free_to_snail_map lower_char_isspace)
next
  assume "isspace c"
  then show "free_to_snail (c # s) = free_to_snail s"
    by (simp add: free_to_snail_map strip_Cons_space)
next
  assume "isspace c"
  then show "free_to_snail (s @ [c]) = free_to_snail s"
    by (simp add: free_to_snail_map strip_snoc_space)
next
  show "takeWhile isspace (free_to_snail s) = []" by (rule free_to_snail_no_leading)
next
  show "takeWhile isspace (rev (free_to_snail s)) = []" by (rule free_to_snail_no_trailing)
next
  show "free_to_snail [CHR 0x09, CHR ''a'', CHR 0x09, CHR ''b'', CHR '' '', CHR 0x0A, CHR ''c'', CHR 0x0A] =
     [CHR ''a'', CHR 0x09, CHR ''b'', CHR ''_'', CHR 0x0A, CHR ''c'']" by code_simp
next
  show "isspace (CHR 0x09)" by (simp add: isspace_def)
next
  show "isspace (CHR 0x0A)" by (simp add: isspace_def)
qed

text \<open>
  Claim C10 at the string space, \<open>A\<close>, tab, \<open>b\<close>, newline: the interior tab is at
  index 1 of the trimmed string and of the result, and one more newline in front
  changes nothing.
\<close>

theorem free_to_snail_only_space_replaced_witness:
  "(1::nat) < length (strip [CHR '' '', CHR ''A'', CHR 0x09, CHR ''b'', CHR 0x0A]) \<and>
   isspace (strip [CHR '' '', CHR ''A'', CHR 0x09, CHR ''b'', CHR 0x0A] ! 1) \<and>
   strip [CHR '' '', CHR ''A'', CHR 0x09, CHR ''b'', CHR 0x0A] ! 1 \<noteq> CHR '' '' \<and>
   free_to_snail [CHR '' '', CHR ''A'', CHR 0x09, CHR ''b'', CHR 0x0A] ! 1 = CHR 0x09 \<and>
   isspace (CHR 0x0A) \<and>
   free_to_snail (CHR 0x0A # [CHR '' '', CHR ''A'', CHR 0x09, CHR ''b'', CHR 0x0A]) =
     free_to_snail [CHR '' '', CHR ''A'', CHR 0x09, CHR ''b'', CHR 0x0A]"
proof -
  let ?s = "[CHR '' '', CHR ''A'', CHR 0x09, CHR ''b'', CHR 0x0A]"
  have st: "strip ?s = [CHR ''A'', CHR 0x09, CHR ''b'']" by code_simp
  have sp: "isspace (CHR 0x09)" "isspace (CHR 0x0A)" by (simp_all add: isspace_def)
  from free_to_snail_only_space_replaced [of ?s "CHR 0x0A"]
  have "\<forall>i<length (strip ?s). isspace (strip ?s ! i) \<and> strip ?s ! i \<noteq> CHR '' '' \<longrightarrow>
          free_to_snail ?s ! i = strip ?s ! i"
    and "isspace (CHR 0x0A) \<longrightarrow> free_to_snail (CHR 0x0A # ?s) = free_to_snail ?s"
    by blast+
  with st sp show ?thesis by simp
qed

end
